theory Spec2Isabelle
  imports Main "HOL-Library.Sublist"
begin

section \<open>Data model\<close>

text \<open>
  Documents are identified by the store's object ids. An id is modelled as a natural number;
  the caller id that the \<open>auth\<close> middleware puts on the request (\<open>req.user.userId\<close>, the
  text of an object id) is modelled as the id it denotes, so that
  \<open>task.createdBy.toString() !== req.user.userId\<close> is inequality of ids and
  \<open>task.assignedTo.includes(userId)\<close> is list membership. Dates are numbers (milliseconds).
\<close>

type_synonym oid = nat

text \<open>
  Modelled from the spec: the User model (\<open>models/User\<close>) is not among the sources; the
  spec lists the fields \<open>fullName\<close>, \<open>username\<close>, \<open>email\<close>, \<open>password\<close> and \<open>role\<close>.
\<close>

record user =
  u_id :: oid
  fullName :: string
  username :: string
  email :: string
  password :: string
  role :: string

text \<open>A user as \<open>select('-password')\<close> returns it: every field but the password.\<close>

record user_public =
  up_id :: oid
  up_fullName :: string
  up_username :: string
  up_email :: string
  up_role :: string

text \<open>A user as \<open>populate(path, 'fullName username email')\<close> attaches it.\<close>

record user_ref =
  ur_id :: oid
  ur_fullName :: string
  ur_username :: string
  ur_email :: string

text \<open>
  Modelled from the spec: the Task model (\<open>models/Task\<close>) is not among the sources; the
  spec lists \<open>title\<close>, \<open>description\<close>, \<open>status\<close>, \<open>priority\<close>, \<open>dueDate\<close>, \<open>createdBy\<close>,
  \<open>assignedTo\<close> and \<open>createdAt\<close>. A scalar field that holds no value is \<open>None\<close>.
\<close>

record task =
  t_id :: oid
  title :: "string option"
  description :: "string option"
  status :: "string option"
  priority :: "string option"
  dueDate :: "nat option"
  createdBy :: oid
  assignedTo :: "oid list"
  createdAt :: nat

text \<open>The notification schema, as declared in the Notification model.\<close>

datatype notification_type = task_assigned | task_updated

record notification =
  n_id :: oid
  n_type :: notification_type
  taskId :: oid
  message :: string
  userId :: oid
  read :: bool
  n_createdAt :: nat

text \<open>
  The three collections, in insertion order, and the next object id the driver hands out.
\<close>

record store =
  users :: "user list"
  tasks :: "task list"
  notifications :: "notification list"
  next_id :: oid

text \<open>
  What a handler sends: \<open>res.status(c).json(payload)\<close> is \<open>Reply c payload\<close> (\<open>res.json\<close>
  alone has status 200), and \<open>res.status(c).json({ message })\<close> on a refusal or in the
  \<open>catch\<close> branch is \<open>Failure c message\<close>.
\<close>

datatype 'a response = Reply nat 'a | Failure nat string

section \<open>User directory: \<open>GET /users/search\<close>\<close>

subsection \<open>The store's \<open>$regex\<close> operator with option \<open>i\<close>\<close>

text \<open>
  The characters that have a meaning of their own in a regular expression.
\<close>

definition is_meta :: "char \<Rightarrow> bool" where
  "is_meta c = (c \<in> set [CHR 0x5C, CHR ''^'', CHR ''$'', CHR ''.'', CHR ''|'', CHR ''?'',
     CHR ''*'', CHR ''+'', CHR ''('', CHR '')'', CHR ''['', CHR '']'', CHR ''{'', CHR ''}''])"

text \<open>A printable ASCII character that stands for itself in a pattern.\<close>

definition ordinary :: "char \<Rightarrow> bool" where
  "ordinary c = (32 \<le> (of_char c :: nat) \<and> (of_char c :: nat) < 127 \<and> \<not> is_meta c)"

text \<open>Option \<open>i\<close>: letters are compared without regard to case.\<close>

definition fold_case :: "char \<Rightarrow> char" where
  "fold_case c =
     (case map_of (zip ''ABCDEFGHIJKLMNOPQRSTUVWXYZ'' ''abcdefghijklmnopqrstuvwxyz'') c of
        Some l \<Rightarrow> l
      | None \<Rightarrow> c)"

text \<open>
  One pattern character against one subject character: a dot matches every character except
  the line feed, any other character of the fragment matches itself up to case.
\<close>

definition char_matches :: "char \<Rightarrow> char \<Rightarrow> bool" where
  "char_matches p c = (if p = CHR ''.'' then c \<noteq> CHR 0x0A else fold_case p = fold_case c)"

text \<open>The pattern matches at the start of the subject.\<close>

fun match_here :: "string \<Rightarrow> string \<Rightarrow> bool" where
  "match_here [] s = True"
| "match_here (p # ps) [] = False"
| "match_here (p # ps) (c # cs) = (char_matches p c \<and> match_here ps cs)"

text \<open>A pattern without anchors matches when it matches at some position of the subject.\<close>

fun match_anywhere :: "string \<Rightarrow> string \<Rightarrow> bool" where
  "match_anywhere p [] = match_here p []"
| "match_anywhere p (c # cs) = (match_here p (c # cs) \<or> match_anywhere p cs)"

text \<open>
  The fragment of the pattern language that is modelled here: ordinary characters and dots.
\<close>

definition in_fragment :: "string \<Rightarrow> bool" where
  "in_fragment p = list_all (\<lambda>c. ordinary c \<or> c = CHR ''.'') p"

text \<open>
  Compiling a pattern. On the fragment the matcher is the one above. A pattern that begins
  with a quantifier has nothing to repeat, and the engine rejects it. What the store's engine
  does with any other pattern is the parameter \<open>engine\<close>: \<open>None\<close> when it rejects the
  pattern (the query then fails), otherwise the matcher it builds.
\<close>

definition starts_with_quantifier :: "string \<Rightarrow> bool" where
  "starts_with_quantifier p =
     (case p of [] \<Rightarrow> False | c # cs \<Rightarrow> c \<in> set [CHR ''*'', CHR ''+'', CHR ''?''])"

definition regex_i :: "(string \<Rightarrow> (string \<Rightarrow> bool) option) \<Rightarrow> string \<Rightarrow> (string \<Rightarrow> bool) option" where
  "regex_i engine p =
     (if in_fragment p then Some (match_anywhere p)
      else if starts_with_quantifier p then None
      else engine p)"

subsection \<open>The handler\<close>

definition select_minus_password :: "user \<Rightarrow> user_public" where
  "select_minus_password u =
     \<lparr>up_id = u_id u, up_fullName = fullName u, up_username = username u,
      up_email = email u, up_role = role u\<rparr>"

text \<open>
  \<open>query\<close> is \<open>req.query.query\<close>: \<open>None\<close> when the parameter is absent. \<open>!query\<close> holds for
  the absent and for the empty string. A failing \<open>User.find\<close> is caught and answered with
  status 500.
\<close>

definition search :: "(string \<Rightarrow> (string \<Rightarrow> bool) option) \<Rightarrow> string option \<Rightarrow> store \<Rightarrow> user_public list response" where
  "search engine query s =
     (case query of
        None \<Rightarrow> Reply 200 []
      | Some q \<Rightarrow>
          if q = [] then Reply 200 []
          else (case regex_i engine q of
                  None \<Rightarrow> Failure 500 ''Server error''
                | Some m \<Rightarrow>
                    Reply 200 (map select_minus_password
                      (filter (\<lambda>u. m (fullName u) \<or> m (username u) \<or> m (email u)) (users s)))))"

subsection \<open>The search as the specification words it\<close>

text \<open>
  \<open>contains_ci q s\<close>: the text \<open>s\<close> contains \<open>q\<close> as a substring, letters compared without
  regard to case.
\<close>

definition contains_ci :: "string \<Rightarrow> string \<Rightarrow> bool" where
  "contains_ci q s = sublist (map fold_case q) (map fold_case s)"

text \<open>
  \<open>search_spec\<close>: nothing for an empty or absent query, otherwise the users with the query
  as a substring of the full name, the user name or the e-mail address.
\<close>

definition search_spec :: "string option \<Rightarrow> store \<Rightarrow> user_public list response" where
  "search_spec query s =
     (case query of
        None \<Rightarrow> Reply 200 []
      | Some q \<Rightarrow>
          if q = [] then Reply 200 []
          else Reply 200 (map select_minus_password
                 (filter (\<lambda>u. contains_ci q (fullName u) \<or> contains_ci q (username u)
                             \<or> contains_ci q (email u)) (users s))))"

text \<open>Two user collections that differ in the passwords only.\<close>

definition same_but_passwords :: "user list \<Rightarrow> user list \<Rightarrow> bool" where
  "same_but_passwords us vs = (map (\<lambda>u. u\<lparr>password := []\<rparr>) us = map (\<lambda>u. u\<lparr>password := []\<rparr>) vs)"

section \<open>Shared store operations\<close>

text \<open>\<open>Model.findById\<close>: the document with the given id, or \<open>null\<close>.\<close>

definition User_findById :: "store \<Rightarrow> oid \<Rightarrow> user option" where
  "User_findById s i = find (\<lambda>u. u_id u = i) (users s)"

definition Task_findById :: "store \<Rightarrow> oid \<Rightarrow> task option" where
  "Task_findById s i = find (\<lambda>t. t_id t = i) (tasks s)"

definition Notification_findById :: "store \<Rightarrow> oid \<Rightarrow> notification option" where
  "Notification_findById s i = find (\<lambda>n. n_id n = i) (notifications s)"

text \<open>Writing to, and removing, the one document that a filter on the id selects.\<close>

fun update_first :: "('a \<Rightarrow> bool) \<Rightarrow> ('a \<Rightarrow> 'a) \<Rightarrow> 'a list \<Rightarrow> 'a list" where
  "update_first P f [] = []"
| "update_first P f (x # xs) = (if P x then f x # xs else x # update_first P f xs)"

fun delete_first :: "('a \<Rightarrow> bool) \<Rightarrow> 'a list \<Rightarrow> 'a list" where
  "delete_first P [] = []"
| "delete_first P (x # xs) = (if P x then xs else x # delete_first P xs)"

text \<open>
  \<open>sort({ createdAt: -1 })\<close>: newest first. The store does not fix the order of documents
  of the same date; the model takes a stable sort.
\<close>

definition newest_first :: "('a \<Rightarrow> nat) \<Rightarrow> 'a list \<Rightarrow> 'a list" where
  "newest_first f xs = rev (sort_key f xs)"

text \<open>\<open>populate(path, 'fullName username email')\<close> and \<open>populate('taskId', 'title')\<close>.\<close>

definition display :: "user \<Rightarrow> user_ref" where
  "display u = \<lparr>ur_id = u_id u, ur_fullName = fullName u, ur_username = username u,
     ur_email = email u\<rparr>"

record task_view =
  tv_id :: oid
  tv_title :: "string option"
  tv_description :: "string option"
  tv_status :: "string option"
  tv_priority :: "string option"
  tv_dueDate :: "nat option"
  tv_createdBy :: "user_ref option"
  tv_assignedTo :: "user_ref list"
  tv_createdAt :: nat

text \<open>
  A reference to a user that no longer exists is populated with \<open>null\<close> when it is a single
  reference, and dropped when it is an entry of an array.
\<close>

definition populate :: "store \<Rightarrow> task \<Rightarrow> task_view" where
  "populate s t =
     \<lparr>tv_id = t_id t, tv_title = title t, tv_description = description t,
      tv_status = status t, tv_priority = priority t, tv_dueDate = dueDate t,
      tv_createdBy = map_option display (User_findById s (createdBy t)),
      tv_assignedTo = List.map_filter (\<lambda>i. map_option display (User_findById s i)) (assignedTo t),
      tv_createdAt = createdAt t\<rparr>"

record notification_view =
  nv_id :: oid
  nv_type :: notification_type
  nv_taskId :: "(oid \<times> string option) option"
  nv_message :: string
  nv_userId :: oid
  nv_read :: bool
  nv_createdAt :: nat

definition populate_taskId :: "store \<Rightarrow> notification \<Rightarrow> notification_view" where
  "populate_taskId s n =
     \<lparr>nv_id = n_id n, nv_type = n_type n,
      nv_taskId = map_option (\<lambda>t. (t_id t, title t)) (Task_findById s (taskId n)),
      nv_message = message n, nv_userId = userId n, nv_read = read n,
      nv_createdAt = n_createdAt n\<rparr>"

text \<open>
  The plain objects that the task handlers hand to \<open>Notification.insertMany\<close>. Each becomes
  a document with an id of its own, \<open>read\<close> false and \<open>createdAt\<close> now, the defaults of the
  schema. The four required fields are always given, so validation passes.
\<close>

record notification_doc =
  d_type :: notification_type
  d_taskId :: oid
  d_message :: string
  d_userId :: oid

definition new_Notification :: "nat \<Rightarrow> oid \<Rightarrow> notification_doc \<Rightarrow> notification" where
  "new_Notification now i d =
     \<lparr>n_id = i, n_type = d_type d, taskId = d_taskId d, message = d_message d,
      userId = d_userId d, read = False, n_createdAt = now\<rparr>"

definition insertMany :: "nat \<Rightarrow> notification_doc list \<Rightarrow> store \<Rightarrow> store" where
  "insertMany now ds s =
     s\<lparr>notifications := notifications s @
          map (\<lambda>(i, d). new_Notification now i d) (enumerate (next_id s) ds),
       next_id := next_id s + length ds\<rparr>"

text \<open>A value inside a template literal: an absent one prints as \<open>undefined\<close>.\<close>

definition template_value :: "string option \<Rightarrow> string" where
  "template_value v = (case v of None \<Rightarrow> ''undefined'' | Some t \<Rightarrow> t)"

text \<open>The two message templates of the task handlers.\<close>

definition create_message :: "string option \<Rightarrow> string" where
  "create_message v = ''You have been assigned a new task: '' @ template_value v"

definition update_message :: "string option \<Rightarrow> string" where
  "update_message v = ''You have been assigned to the task: '' @ template_value v"

section \<open>Notifications\<close>

text \<open>\<open>GET /notifications\<close>\<close>

definition get_notifications :: "oid \<Rightarrow> store \<Rightarrow> notification_view list response" where
  "get_notifications caller s =
     Reply 200 (newest_first nv_createdAt
       (map (populate_taskId s) (filter (\<lambda>n. userId n = caller) (notifications s))))"

text \<open>\<open>PATCH /notifications/:id/read\<close>; \<open>save\<close> writes to the document with the id loaded.\<close>

definition patch_notification_read :: "oid \<Rightarrow> oid \<Rightarrow> store \<Rightarrow> notification response \<times> store" where
  "patch_notification_read caller i s =
     (case Notification_findById s i of
        None \<Rightarrow> (Failure 404 ''Notification not found'', s)
      | Some notification \<Rightarrow>
          if userId notification \<noteq> caller then (Failure 403 ''Not authorized'', s)
          else (Reply 200 (notification\<lparr>read := True\<rparr>),
                s\<lparr>notifications :=
                    update_first (\<lambda>n. n_id n = n_id notification) (\<lambda>n. n\<lparr>read := True\<rparr>)
                      (notifications s)\<rparr>))"

text \<open>\<open>POST /notifications/mark-all-read\<close>\<close>

definition post_mark_all_read :: "oid \<Rightarrow> store \<Rightarrow> string response \<times> store" where
  "post_mark_all_read caller s =
     (Reply 200 ''All notifications marked as read'',
      s\<lparr>notifications :=
          map (\<lambda>n. if userId n = caller \<and> read n = False then n\<lparr>read := True\<rparr> else n)
            (notifications s)\<rparr>)"

section \<open>Tasks\<close>

text \<open>
  The request body of \<open>POST /tasks\<close> and \<open>PUT /tasks/:id\<close>; a field that the caller did not
  supply is \<open>None\<close> (\<open>undefined\<close> after the destructuring).
\<close>

record body =
  b_title :: "string option"
  b_description :: "string option"
  b_status :: "string option"
  b_priority :: "string option"
  b_dueDate :: "nat option"
  b_assignedTo :: "oid list option"

text \<open>
  Modelled from the spec: what the Task schema, which is not among the sources, adds to the
  fields. The spec names a default for the status and leaves the sets of values and the
  required fields to the implementation; they are parameters here: the defaults of \<open>status\<close>
  and \<open>priority\<close>, and the validation that \<open>save\<close> runs.
\<close>

record task_schema =
  default_status :: "string option"
  default_priority :: "string option"
  validate :: "task \<Rightarrow> bool"

definition or_default :: "'a option \<Rightarrow> 'a option \<Rightarrow> 'a option" where
  "or_default v d = (case v of None \<Rightarrow> d | Some x \<Rightarrow> Some x)"

text \<open>\<open>new Task({ ... })\<close>: an absent array is the empty array.\<close>

definition new_Task :: "task_schema \<Rightarrow> nat \<Rightarrow> oid \<Rightarrow> oid \<Rightarrow> body \<Rightarrow> task" where
  "new_Task sch now i caller b =
     \<lparr>t_id = i, title = b_title b, description = b_description b,
      status = or_default (b_status b) (default_status sch),
      priority = or_default (b_priority b) (default_priority sch),
      dueDate = b_dueDate b, createdBy = caller,
      assignedTo = (case b_assignedTo b of None \<Rightarrow> [] | Some us \<Rightarrow> us),
      createdAt = now\<rparr>"

text \<open>
  \<open>POST /tasks\<close>. A task that fails validation is not saved, and the \<open>catch\<close> branch answers.
  With \<open>assignedTo\<close> absent, \<open>assignedTo.map\<close> throws after the task has been saved, and the
  \<open>catch\<close> branch answers as well.
\<close>

definition post_tasks :: "task_schema \<Rightarrow> nat \<Rightarrow> oid \<Rightarrow> body \<Rightarrow> store \<Rightarrow> task_view option response \<times> store" where
  "post_tasks sch now caller b s =
     (let task = new_Task sch now (next_id s) caller b;
          s0 = s\<lparr>next_id := Suc (next_id s)\<rparr>
      in if \<not> validate sch task then (Failure 500 ''Server error'', s0)
         else
           let s1 = s0\<lparr>tasks := tasks s0 @ [task]\<rparr>
           in (case b_assignedTo b of
                 None \<Rightarrow> (Failure 500 ''Server error'', s1)
               | Some us \<Rightarrow>
                   let s2 = insertMany now
                         (map (\<lambda>userId.
                            \<lparr>d_type = task_assigned, d_taskId = t_id task,
                             d_message = create_message (b_title b),
                             d_userId = userId\<rparr>) us) s1
                   in (Reply 201 (map_option (populate s2) (Task_findById s2 (t_id task))), s2)))"

text \<open>
  The object given to \<open>$set\<close>: its keys in order, each with its value, which is \<open>None\<close>
  when the handler put \<open>undefined\<close> there.
\<close>

datatype assignment =
  Title "string option"
| Description "string option"
| Status "string option"
| Priority "string option"
| DueDate "nat option"
| AssignedTo "oid list"

text \<open>
  What becomes of a key of \<open>$set\<close> whose value is \<open>undefined\<close> is decided by the object
  mapper and the driver, not by the handlers: the key is either dropped from the update
  (\<open>Omit\<close>) or written as \<open>null\<close> (\<open>Null\<close>). The handlers are modelled for both.
\<close>

datatype undefined_policy = Omit | Null

fun set_field :: "undefined_policy \<Rightarrow> 'a option \<Rightarrow> 'a option \<Rightarrow> 'a option" where
  "set_field pol (Some v) old = Some v"
| "set_field Omit None old = old"
| "set_field Null None old = None"

fun apply_assignment :: "undefined_policy \<Rightarrow> assignment \<Rightarrow> task \<Rightarrow> task" where
  "apply_assignment pol (Title v) t = t\<lparr>title := set_field pol v (title t)\<rparr>"
| "apply_assignment pol (Description v) t = t\<lparr>description := set_field pol v (description t)\<rparr>"
| "apply_assignment pol (Status v) t = t\<lparr>status := set_field pol v (status t)\<rparr>"
| "apply_assignment pol (Priority v) t = t\<lparr>priority := set_field pol v (priority t)\<rparr>"
| "apply_assignment pol (DueDate v) t = t\<lparr>dueDate := set_field pol v (dueDate t)\<rparr>"
| "apply_assignment pol (AssignedTo us) t = t\<lparr>assignedTo := us\<rparr>"

definition set_all :: "undefined_policy \<Rightarrow> assignment list \<Rightarrow> task \<Rightarrow> task" where
  "set_all pol as t = fold (apply_assignment pol) as t"

text \<open>
  Modelled from the spec: the Task schema is not among the sources; the spec makes \<open>dueDate\<close>
  a date and the other scalar fields strings. The values of an update are cast to the types
  of the schema before anything is written. A string is a string and an id is an id; a
  number of milliseconds is a date only up to 8640000000000000, the largest date there is.
\<close>

definition max_date :: nat where
  "max_date = 8640000000000000"

fun castable :: "assignment \<Rightarrow> bool" where
  "castable (DueDate (Some d)) = (d \<le> max_date)"
| "castable a = True"

text \<open>
  \<open>Task.findByIdAndUpdate(id, { $set: updates }, { new: true })\<close>: \<open>None\<close> when a value
  cannot be cast and the call throws, with nothing written; otherwise the updated task
  (\<open>null\<close> when there is no task of that id) and the store after the write.
\<close>

definition Task_findByIdAndUpdate :: "undefined_policy \<Rightarrow> oid \<Rightarrow> assignment list \<Rightarrow> store \<Rightarrow> (task option \<times> store) option" where
  "Task_findByIdAndUpdate pol i as s =
     (if \<not> list_all castable as then None
      else Some
        (case Task_findById s i of
           None \<Rightarrow> (None, s)
         | Some t \<Rightarrow>
             (Some (set_all pol as t),
              s\<lparr>tasks := update_first (\<lambda>t. t_id t = i) (set_all pol as) (tasks s)\<rparr>)))"

text \<open>
  \<open>PUT /tasks/:id\<close>. \<open>if (assignedTo)\<close> holds for every array, the empty one too. The
  notifications are inserted before the update; when the update throws, the \<open>catch\<close> branch
  answers and the notifications stay.
\<close>

definition put_task :: "undefined_policy \<Rightarrow> nat \<Rightarrow> oid \<Rightarrow> oid \<Rightarrow> body \<Rightarrow> store \<Rightarrow> task_view option response \<times> store" where
  "put_task pol now caller i b s =
     (case Task_findById s i of
        None \<Rightarrow> (Failure 404 ''Task not found'', s)
      | Some task \<Rightarrow>
          if createdBy task \<noteq> caller
          then (Failure 403 ''Not authorized to update this task'', s)
          else
            let updates = [Title (b_title b), Description (b_description b), Status (b_status b),
                           Priority (b_priority b), DueDate (b_dueDate b)];
                (updates, s1) =
                  (case b_assignedTo b of
                     None \<Rightarrow> (updates, s)
                   | Some us \<Rightarrow>
                       let newAssignees = filter (\<lambda>userId. userId \<notin> set (assignedTo task)) us
                       in (updates @ [AssignedTo us],
                           if length newAssignees > 0
                           then insertMany now
                                  (map (\<lambda>userId.
                                     \<lparr>d_type = task_assigned, d_taskId = t_id task,
                                      d_message = update_message (b_title b),
                                      d_userId = userId\<rparr>) newAssignees) s
                           else s))
            in (case Task_findByIdAndUpdate pol i updates s1 of
                  None \<Rightarrow> (Failure 500 ''Server error'', s1)
                | Some (updatedTask, s2) \<Rightarrow>
                    (Reply 200 (map_option (populate s2) updatedTask), s2)))"

text \<open>\<open>PATCH /tasks/:id/status\<close>\<close>

definition patch_task_status :: "undefined_policy \<Rightarrow> oid \<Rightarrow> oid \<Rightarrow> string option \<Rightarrow> store \<Rightarrow> task_view option response \<times> store" where
  "patch_task_status pol caller i st s =
     (case Task_findById s i of
        None \<Rightarrow> (Failure 404 ''Task not found'', s)
      | Some task \<Rightarrow>
          if caller \<notin> set (assignedTo task)
          then (Failure 403 ''Not authorized to update this task'', s)
          else
            (case Task_findByIdAndUpdate pol i [Status st] s of
               None \<Rightarrow> (Failure 500 ''Server error'', s)
             | Some (updatedTask, s1) \<Rightarrow>
                 (Reply 200 (map_option (populate s1) updatedTask), s1)))"

text \<open>\<open>DELETE /tasks/:id\<close>\<close>

definition delete_task :: "oid \<Rightarrow> oid \<Rightarrow> store \<Rightarrow> string response \<times> store" where
  "delete_task caller i s =
     (case Task_findById s i of
        None \<Rightarrow> (Failure 404 ''Task not found'', s)
      | Some task \<Rightarrow>
          if createdBy task \<noteq> caller
          then (Failure 403 ''Not authorized to delete this task'', s)
          else (Reply 200 ''Task deleted'',
                s\<lparr>tasks := delete_first (\<lambda>t. t_id t = t_id task) (tasks s),
                  notifications := filter (\<lambda>n. taskId n \<noteq> t_id task) (notifications s)\<rparr>))"

text \<open>
  \<open>GET /tasks\<close>, \<open>GET /tasks/created\<close> and \<open>GET /tasks/assigned\<close>. When the caller is not in
  the user collection, \<open>user.role\<close> throws and the \<open>catch\<close> branch answers.
\<close>

definition get_tasks :: "oid \<Rightarrow> store \<Rightarrow> task_view list response" where
  "get_tasks caller s =
     (case User_findById s caller of
        None \<Rightarrow> Failure 500 ''Server error''
      | Some user \<Rightarrow>
          if role user \<noteq> ''admin'' then Failure 403 ''Access denied''
          else Reply 200 (newest_first tv_createdAt (map (populate s) (tasks s))))"

definition get_tasks_created :: "oid \<Rightarrow> store \<Rightarrow> task_view list response" where
  "get_tasks_created caller s =
     Reply 200 (newest_first tv_createdAt
       (map (populate s) (filter (\<lambda>t. createdBy t = caller) (tasks s))))"

definition get_tasks_assigned :: "oid \<Rightarrow> store \<Rightarrow> task_view list response" where
  "get_tasks_assigned caller s =
     Reply 200 (newest_first tv_createdAt
       (map (populate s) (filter (\<lambda>t. caller \<in> set (assignedTo t)) (tasks s))))"

section \<open>The exposed operations as one transition function\<close>

datatype request =
  GetNotifications
| PatchNotificationRead oid
| PostMarkAllRead
| GetTasks
| GetTasksCreated
| GetTasksAssigned
| PostTasks body
| PutTask oid body
| PatchTaskStatus oid "string option"
| DeleteTask oid
| GetUsersSearch "string option"

text \<open>
  The store after a request of \<open>caller\<close> at time \<open>now\<close>. The \<open>GET\<close> handlers only read.
\<close>

fun handle :: "task_schema \<Rightarrow> undefined_policy \<Rightarrow> nat \<times> oid \<times> request \<Rightarrow> store \<Rightarrow> store" where
  "handle sch pol (now, caller, PatchNotificationRead i) s = snd (patch_notification_read caller i s)"
| "handle sch pol (now, caller, PostMarkAllRead) s = snd (post_mark_all_read caller s)"
| "handle sch pol (now, caller, PostTasks b) s = snd (post_tasks sch now caller b s)"
| "handle sch pol (now, caller, PutTask i b) s = snd (put_task pol now caller i b s)"
| "handle sch pol (now, caller, PatchTaskStatus i st) s = snd (patch_task_status pol caller i st s)"
| "handle sch pol (now, caller, DeleteTask i) s = snd (delete_task caller i s)"
| "handle sch pol (now, caller, r) s = s"

definition run :: "task_schema \<Rightarrow> undefined_policy \<Rightarrow> (nat \<times> oid \<times> request) list \<Rightarrow> store \<Rightarrow> store" where
  "run sch pol rs s = fold (handle sch pol) rs s"

text \<open>
  The store keeps the ids of a collection unique, and the driver never hands out an id
  again.
\<close>

definition wf_store :: "store \<Rightarrow> bool" where
  "wf_store s =
     (distinct (map t_id (tasks s)) \<and> distinct (map n_id (notifications s)) \<and>
      (\<forall>t \<in> set (tasks s). t_id t < next_id s) \<and>
      (\<forall>n \<in> set (notifications s). n_id n < next_id s))"

text \<open>
  One store comes after another: no id is handed out again, and every notification of the
  later store that has an id of the earlier one is that notification, still read if it was.
\<close>

definition evolves :: "store \<Rightarrow> store \<Rightarrow> bool" where
  "evolves s s' =
     (next_id s \<le> next_id s' \<and>
      (\<forall>n' \<in> set (notifications s').
         next_id s \<le> n_id n' \<or>
         (\<exists>n \<in> set (notifications s). n_id n = n_id n' \<and> (read n \<longrightarrow> read n'))))"

section \<open>Example data\<close>

definition alice :: user where
  "alice = \<lparr>u_id = 1, fullName = ''Alice Kumar'', username = ''alice'',
     email = ''alice@example'', password = ''secret-a'', role = ''admin''\<rparr>"

definition bob :: user where
  "bob = \<lparr>u_id = 2, fullName = ''Bob Singh'', username = ''bob'',
     email = ''bob@example'', password = ''secret-b'', role = ''user''\<rparr>"

definition carol :: user where
  "carol = \<lparr>u_id = 3, fullName = ''Carol Das'', username = ''carol'',
     email = ''carol@example'', password = ''secret-c'', role = ''user''\<rparr>"

definition dave :: user where
  "dave = \<lparr>u_id = 4, fullName = ''Dave Roy'', username = ''dave'',
     email = ''dave@example'', password = ''secret-d'', role = ''user''\<rparr>"

definition directory :: store where
  "directory = \<lparr>users = [alice, bob, carol], tasks = [], notifications = [], next_id = 10\<rparr>"

text \<open>The same directory after two users changed their passwords.\<close>

definition directory' :: store where
  "directory' = \<lparr>users = [alice\<lparr>password := ''changed''\<rparr>, bob, carol\<lparr>password := ''x''\<rparr>],
     tasks = [], notifications = [], next_id = 10\<rparr>"

text \<open>An engine that rejects every pattern outside the fragment.\<close>

definition reject_all :: "string \<Rightarrow> (string \<Rightarrow> bool) option" where
  "reject_all p = None"

definition simple_schema :: task_schema where
  "simple_schema = \<lparr>default_status = Some ''pending'', default_priority = None,
     validate = (\<lambda>t. title t \<noteq> None)\<rparr>"

definition report :: task where
  "report = \<lparr>t_id = 10, title = Some ''Report'', description = Some ''Quarterly'',
     status = Some ''pending'', priority = Some ''high'', dueDate = None, createdBy = 1,
     assignedTo = [2, 3], createdAt = 100\<rparr>"

definition notice :: notification where
  "notice = \<lparr>n_id = 11, n_type = task_assigned, taskId = 10,
     message = ''You have been assigned a new task: Report'', userId = 2, read = False,
     n_createdAt = 100\<rparr>"

definition notice' :: notification where
  "notice' = \<lparr>n_id = 12, n_type = task_assigned, taskId = 10,
     message = ''You have been assigned a new task: Report'', userId = 3, read = True,
     n_createdAt = 100\<rparr>"

definition office :: store where
  "office = \<lparr>users = [alice, bob, carol, dave], tasks = [report],
     notifications = [notice, notice'], next_id = 13\<rparr>"

definition bare_body :: body where
  "bare_body = \<lparr>b_title = Some ''Audit'', b_description = None, b_status = None,
     b_priority = None, b_dueDate = None, b_assignedTo = None\<rparr>"

definition widened_body :: body where
  "widened_body = \<lparr>b_title = Some ''Report v2'', b_description = None, b_status = None,
     b_priority = None, b_dueDate = None, b_assignedTo = Some [2, 3, 4]\<rparr>"

text \<open>A body that lists one new assignee twice, and one with a due date that is no date.\<close>

definition doubled_body :: body where
  "doubled_body = \<lparr>b_title = Some ''Report v2'', b_description = None, b_status = None,
     b_priority = None, b_dueDate = None, b_assignedTo = Some [4, 4]\<rparr>"

definition undated_body :: body where
  "undated_body = \<lparr>b_title = Some ''Report v2'', b_description = None, b_status = None,
     b_priority = None, b_dueDate = Some 8640000000000001, b_assignedTo = Some [2, 3, 4]\<rparr>"

definition request_body :: body where
  "request_body = \<lparr>b_title = Some ''Audit'', b_description = None, b_status = None,
     b_priority = None, b_dueDate = None, b_assignedTo = Some [2, 3]\<rparr>"

text \<open>A sequence of requests on the example store.\<close>

definition trace :: "(nat \<times> oid \<times> request) list" where
  "trace = [(200, 2, PatchNotificationRead 11), (201, 1, PutTask 10 widened_body),
            (202, 3, PostMarkAllRead), (203, 1, PostTasks request_body)]"

section \<open>Properties of the search\<close>

lemma match_here_ordinary:
  "list_all ordinary p \<Longrightarrow> match_here p s = prefix (map fold_case p) (map fold_case s)"
proof (induction p arbitrary: s)
  case Nil
  then show ?case by simp
next
  case (Cons a p)
  have nodot: "a \<noteq> CHR ''.''"
    using Cons.prems by (auto simp: ordinary_def is_meta_def)
  show ?case
  proof (cases s)
    case Nil
    then show ?thesis by simp
  next
    case (Cons c cs)
    then show ?thesis
      using Cons.IH [of cs] Cons.prems nodot by (simp add: char_matches_def)
  qed
qed

lemma match_anywhere_ordinary:
  "list_all ordinary p \<Longrightarrow> match_anywhere p s = contains_ci p s"
proof (induction s)
  case Nil
  then show ?case
    by (cases p) (simp_all add: contains_ci_def)
next
  case (Cons c cs)
  show ?case
  proof (cases p)
    case Nil
    then show ?thesis by (simp add: contains_ci_def)
  next
    case (Cons a as)
    then show ?thesis
      using Cons.IH Cons.prems match_here_ordinary [of p "c # cs"]
      by (simp add: contains_ci_def sublist_Cons_right)
  qed
qed

lemma ordinary_in_fragment: "list_all ordinary p \<Longrightarrow> in_fragment p"
  by (induction p) (simp_all add: in_fragment_def)

lemma search_filter_cong:
  assumes "same_but_passwords us vs"
  shows "map select_minus_password (filter (\<lambda>u. m (fullName u) \<or> m (username u) \<or> m (email u)) us)
       = map select_minus_password (filter (\<lambda>u. m (fullName u) \<or> m (username u) \<or> m (email u)) vs)"
  using assms
proof (induction us arbitrary: vs)
  case Nil
  then show ?case by (simp add: same_but_passwords_def)
next
  case (Cons u us)
  then obtain v vs' where vs: "vs = v # vs'"
    by (cases vs) (auto simp: same_but_passwords_def)
  have hd: "u\<lparr>password := []\<rparr> = v\<lparr>password := []\<rparr>"
    and tl: "same_but_passwords us vs'"
    using Cons.prems vs by (simp_all add: same_but_passwords_def)
  have "fullName (u\<lparr>password := []\<rparr>) = fullName (v\<lparr>password := []\<rparr>)"
       "username (u\<lparr>password := []\<rparr>) = username (v\<lparr>password := []\<rparr>)"
       "email (u\<lparr>password := []\<rparr>) = email (v\<lparr>password := []\<rparr>)"
       "u_id (u\<lparr>password := []\<rparr>) = u_id (v\<lparr>password := []\<rparr>)"
       "role (u\<lparr>password := []\<rparr>) = role (v\<lparr>password := []\<rparr>)"
    using hd by simp_all
  then have same: "fullName u = fullName v" "username u = username v" "email u = email v"
       "u_id u = u_id v" "role u = role v"
    by simp_all
  show ?case
    using Cons.IH [OF tl] same by (simp add: vs select_minus_password_def)
qed

lemma quantifier_not_in_fragment: "starts_with_quantifier p \<Longrightarrow> \<not> in_fragment p"
  by (cases p) (auto simp: starts_with_quantifier_def in_fragment_def ordinary_def is_meta_def)

text \<open>
  C3, as amended. An absent or empty query is answered with the empty list. Every other query
  is compiled as a case-insensitive pattern: when the store rejects it, as it does a pattern
  that begins with a quantifier, the answer is status 500; otherwise the answer is exactly
  the users with a full name, user name or e-mail address that the pattern matches, without
  the password. On the modelled fragment the matcher is the one defined here, and for a
  query of ordinary characters only it is the case-insensitive substring test, so that the
  search is the one of the specification.
\<close>

theorem search_is_regex_search:
  "search engine None s = Reply 200 [] \<and>
   search engine (Some []) s = Reply 200 [] \<and>
   (q \<noteq> [] \<longrightarrow>
      search engine (Some q) s =
        (case regex_i engine q of
           None \<Rightarrow> Failure 500 ''Server error''
         | Some m \<Rightarrow>
             Reply 200 (map select_minus_password
               (filter (\<lambda>u. m (fullName u) \<or> m (username u) \<or> m (email u)) (users s))))) \<and>
   (starts_with_quantifier q \<longrightarrow> regex_i engine q = None) \<and>
   (in_fragment q \<longrightarrow> regex_i engine q = Some (match_anywhere q)) \<and>
   (list_all ordinary q \<longrightarrow> regex_i engine q = Some (contains_ci q)) \<and>
   (q \<noteq> [] \<and> list_all ordinary q \<longrightarrow> search engine (Some q) s = search_spec (Some q) s)"
proof -
  have ord: "regex_i engine q = Some (contains_ci q)" if "list_all ordinary q"
  proof -
    have "regex_i engine q = Some (match_anywhere q)"
      using that ordinary_in_fragment by (simp add: regex_i_def)
    moreover have "match_anywhere q = contains_ci q"
      using that match_anywhere_ordinary by blast
    ultimately show ?thesis by simp
  qed
  have spec: "search engine (Some q) s = search_spec (Some q) s" if "q \<noteq> []" "list_all ordinary q"
    using that ord by (simp add: search_def search_spec_def)
  have quant: "regex_i engine q = None" if "starts_with_quantifier q"
    using that quantifier_not_in_fragment by (simp add: regex_i_def)
  have frag: "regex_i engine q = Some (match_anywhere q)" if "in_fragment q"
    using that by (simp add: regex_i_def)
  have gen: "search engine (Some q) s =
        (case regex_i engine q of
           None \<Rightarrow> Failure 500 ''Server error''
         | Some m \<Rightarrow>
             Reply 200 (map select_minus_password
               (filter (\<lambda>u. m (fullName u) \<or> m (username u) \<or> m (email u)) (users s))))"
    if "q \<noteq> []"
    using that by (simp add: search_def)
  have none: "search engine None s = Reply 200 []" "search engine (Some []) s = Reply 200 []"
    by (simp_all add: search_def)
  show ?thesis
    using none gen quant frag ord spec by blast
qed

theorem search_is_regex_search_witness:
  "''BO'' \<noteq> [] \<and> in_fragment ''BO'' \<and> list_all ordinary ''BO'' \<and>
   search reject_all (Some ''BO'') directory = search_spec (Some ''BO'') directory \<and>
   search_spec (Some ''BO'') directory = Reply 200 [select_minus_password bob] \<and>
   starts_with_quantifier ''*'' \<and>
   search reject_all (Some ''*'') directory = Failure 500 ''Server error''"
proof -
  have o: "list_all ordinary ''BO''"
    by (simp add: ordinary_def is_meta_def)
  have n: "''BO'' \<noteq> []"
    by simp
  have v: "search_spec (Some ''BO'') directory = Reply 200 [select_minus_password bob]"
    by (simp add: search_spec_def directory_def alice_def bob_def carol_def dave_def
        contains_ci_def fold_case_def sublist_code)
  have e: "search reject_all (Some ''BO'') directory = search_spec (Some ''BO'') directory"
    using search_is_regex_search [of reject_all directory "''BO''"] o n by blast
  have q: "starts_with_quantifier ''*''"
    by (simp add: starts_with_quantifier_def)
  have r: "regex_i reject_all ''*'' = None"
    using search_is_regex_search [of reject_all directory "''*''"] q by blast
  have "search reject_all (Some ''*'') directory =
        (case regex_i reject_all ''*'' of
           None \<Rightarrow> Failure 500 ''Server error''
         | Some m \<Rightarrow>
             Reply 200 (map select_minus_password
               (filter (\<lambda>u. m (fullName u) \<or> m (username u) \<or> m (email u)) (users directory))))"
    using search_is_regex_search [of reject_all directory "''*''"] by simp
  then have f: "search reject_all (Some ''*'') directory = Failure 500 ''Server error''"
    by (simp add: r)
  show ?thesis
    using n o v e q f ordinary_in_fragment [OF o] by blast
qed

text \<open>
  C3, as the claim states it, fails: the query \<open>.\<close> is a pattern that every non-empty
  name matches, so the search returns all three users, none of whom has a dot in the full
  name, the user name or the e-mail address.
\<close>

theorem search_substring_counterexample:
  "search reject_all (Some ''.'') directory
     = Reply 200 [select_minus_password alice, select_minus_password bob, select_minus_password carol] \<and>
   search_spec (Some ''.'') directory = Reply 200 []"
  by (simp add: search_def search_spec_def regex_i_def in_fragment_def directory_def alice_def
      bob_def carol_def contains_ci_def fold_case_def sublist_code char_matches_def)

text \<open>
  C4. The records of the answer have no password field (the type \<open>user_public\<close>), and the
  answer does not depend on the stored passwords: two stores whose users differ in the
  passwords only get the same answer to every query.
\<close>

theorem search_password_noninterference:
  "same_but_passwords (users s1) (users s2) \<Longrightarrow> search engine query s1 = search engine query s2"
  by (auto simp: search_def search_filter_cong split: option.splits)

theorem search_password_noninterference_witness:
  "same_but_passwords (users directory) (users directory') \<and>
   users directory \<noteq> users directory' \<and>
   search reject_all (Some ''a'') directory = search reject_all (Some ''a'') directory'"
proof -
  have h: "same_but_passwords (users directory) (users directory')"
    by (simp add: same_but_passwords_def directory_def directory'_def)
  have d: "users directory \<noteq> users directory'"
    by (simp add: directory_def directory'_def alice_def)
  show ?thesis
    using h d search_password_noninterference [OF h, of reject_all "Some ''a''"] by simp
qed

section \<open>Properties of the task handlers\<close>

text \<open>
  C5. A caller who is neither the creator of an existing task nor among its assignees is
  refused with status 403 by \<open>PUT /tasks/:id\<close>, by \<open>PATCH /tasks/:id/status\<close> and by
  \<open>DELETE /tasks/:id\<close>, and each of the three leaves the store as it was.
\<close>

theorem outsider_forbidden:
  assumes "Task_findById s i = Some T" "caller \<noteq> createdBy T" "caller \<notin> set (assignedTo T)"
  shows "put_task pol now caller i b s = (Failure 403 ''Not authorized to update this task'', s) \<and>
         patch_task_status pol caller i st s = (Failure 403 ''Not authorized to update this task'', s) \<and>
         delete_task caller i s = (Failure 403 ''Not authorized to delete this task'', s)"
  using assms by (auto simp: put_task_def patch_task_status_def delete_task_def)

theorem outsider_forbidden_witness:
  "Task_findById office 10 = Some report \<and> 4 \<noteq> createdBy report \<and> 4 \<notin> set (assignedTo report) \<and>
   put_task Omit 200 4 10 \<lparr>b_title = Some ''Mine'', b_description = None, b_status = None,
       b_priority = None, b_dueDate = None, b_assignedTo = Some [3]\<rparr> office
     = (Failure 403 ''Not authorized to update this task'', office) \<and>
   patch_task_status Omit 4 10 (Some ''done'') office
     = (Failure 403 ''Not authorized to update this task'', office) \<and>
   delete_task 4 10 office = (Failure 403 ''Not authorized to delete this task'', office)"
proof -
  have a: "Task_findById office 10 = Some report"
    by (simp add: Task_findById_def office_def report_def)
  have b: "4 \<noteq> createdBy report" and c: "4 \<notin> set (assignedTo report)"
    by (simp_all add: report_def)
  show ?thesis
    using a b c outsider_forbidden [OF a b c] by simp
qed

lemma find_update_first:
  "find P xs = Some x \<Longrightarrow> P (f x) \<Longrightarrow> find P (update_first P f xs) = Some (f x)"
  by (induction xs) (auto split: if_splits)

lemma update_first_idem:
  "find P xs = Some x \<Longrightarrow> f x = x \<Longrightarrow> update_first P f xs = xs"
  by (induction xs) (auto split: if_splits)

lemma update_first_twice:
  "(\<And>x. P (f x) = P x) \<Longrightarrow> (\<And>x. f (f x) = f x) \<Longrightarrow> update_first P f (update_first P f xs) = update_first P f xs"
  by (induction xs) (auto split: if_splits)

text \<open>
  C8. Marking a notification of one's own as read succeeds and answers with the notification,
  \<open>read\<close> set; doing it again succeeds with the same answer and leaves the store as the
  first call left it.
\<close>

theorem mark_read_idempotent:
  assumes "Notification_findById s i = Some N" "userId N = caller"
  shows "\<exists>s1. patch_notification_read caller i s = (Reply 200 (N\<lparr>read := True\<rparr>), s1) \<and>
              patch_notification_read caller i s1 = (Reply 200 (N\<lparr>read := True\<rparr>), s1)"
proof -
  let ?s1 = "s\<lparr>notifications := update_first (\<lambda>n. n_id n = n_id N) (\<lambda>n. n\<lparr>read := True\<rparr>) (notifications s)\<rparr>"
  have id: "n_id N = i"
    using assms(1) by (auto simp: Notification_findById_def find_Some_iff)
  have first: "patch_notification_read caller i s = (Reply 200 (N\<lparr>read := True\<rparr>), ?s1)"
    using assms by (simp add: patch_notification_read_def)
  have found: "Notification_findById ?s1 i = Some (N\<lparr>read := True\<rparr>)"
    using assms(1) find_update_first [of "\<lambda>n. n_id n = i" "notifications s" N "\<lambda>n. n\<lparr>read := True\<rparr>"]
    by (simp add: Notification_findById_def id)
  have same: "update_first (\<lambda>n. n_id n = i) (\<lambda>n. n\<lparr>read := True\<rparr>)
                (update_first (\<lambda>n. n_id n = i) (\<lambda>n. n\<lparr>read := True\<rparr>) (notifications s))
              = update_first (\<lambda>n. n_id n = i) (\<lambda>n. n\<lparr>read := True\<rparr>) (notifications s)"
    by (rule update_first_twice) simp_all
  have second: "patch_notification_read caller i ?s1 = (Reply 200 (N\<lparr>read := True\<rparr>), ?s1)"
    using found assms(2) same by (simp add: patch_notification_read_def id)
  show ?thesis
    using first second by blast
qed

theorem mark_read_idempotent_witness:
  "Notification_findById office 11 = Some notice \<and> userId notice = 2 \<and> \<not> read notice \<and>
   (\<exists>s1. patch_notification_read 2 11 office = (Reply 200 (notice\<lparr>read := True\<rparr>), s1) \<and>
         patch_notification_read 2 11 s1 = (Reply 200 (notice\<lparr>read := True\<rparr>), s1))"
proof -
  have a: "Notification_findById office 11 = Some notice"
    by (simp add: Notification_findById_def office_def notice_def)
  have b: "userId notice = 2" and c: "\<not> read notice"
    by (simp_all add: notice_def)
  show ?thesis
    using a b c mark_read_idempotent [OF a b] by simp
qed

lemma find_append_last:
  "P x \<Longrightarrow> \<exists>y. find P (xs @ [x]) = Some y \<and> P y"
  by (induction xs) auto

lemma inserted_ids:
  "map n_id (map (\<lambda>(i, d). new_Notification now i d) (enumerate k ds)) = [k..<k + length ds]"
proof -
  have "n_id \<circ> (\<lambda>(i, d). new_Notification now i d) = fst"
    by (auto simp: new_Notification_def fun_eq_iff)
  then show ?thesis by simp
qed

lemma inserted_userIds:
  "map userId (map (\<lambda>(i, d). new_Notification now i d) (enumerate k ds)) = map d_userId ds"
  by (induction ds arbitrary: k) (simp_all add: new_Notification_def)

lemma inserted_fields:
  "n \<in> set (map (\<lambda>(i, d). new_Notification now i d) (enumerate k ds)) \<Longrightarrow>
   \<exists>d \<in> set ds. n_type n = d_type d \<and> taskId n = d_taskId d \<and> message n = d_message d \<and>
      userId n = d_userId d \<and> \<not> read n \<and> n_createdAt n = now \<and> k \<le> n_id n"
proof (induction ds arbitrary: k)
  case Nil
  then show ?case by simp
next
  case (Cons d ds)
  then consider "n = new_Notification now k d"
    | "n \<in> set (map (\<lambda>(i, d). new_Notification now i d) (enumerate (Suc k) ds))"
    by auto
  then show ?case
  proof cases
    case 1
    then show ?thesis by (simp add: new_Notification_def)
  next
    case 2
    from Cons.IH [OF this] show ?thesis by auto
  qed
qed




text \<open>
  C10, at the input where the handler departs from it. With \<open>assignedTo\<close> absent from the
  body, \<open>POST /tasks\<close> answers with status 500; no notification is inserted, and a task that
  passes validation has been saved all the same.
\<close>

theorem post_tasks_without_assignedTo:
  assumes "b_assignedTo b = None"
  shows "fst (post_tasks sch now caller b s) = Failure 500 ''Server error'' \<and>
         notifications (snd (post_tasks sch now caller b s)) = notifications s \<and>
         (validate sch (new_Task sch now (next_id s) caller b) \<longrightarrow>
            tasks (snd (post_tasks sch now caller b s))
              = tasks s @ [new_Task sch now (next_id s) caller b])"
  using assms by (simp add: post_tasks_def Let_def)

theorem post_tasks_without_assignedTo_witness:
  "b_assignedTo bare_body = None \<and>
   validate simple_schema (new_Task simple_schema 200 (next_id office) 1 bare_body) \<and>
   fst (post_tasks simple_schema 200 1 bare_body office) = Failure 500 ''Server error'' \<and>
   notifications (snd (post_tasks simple_schema 200 1 bare_body office)) = [notice, notice'] \<and>
   tasks (snd (post_tasks simple_schema 200 1 bare_body office))
     = [report, new_Task simple_schema 200 13 1 bare_body]"
proof -
  have a: "b_assignedTo bare_body = None"
    by (simp add: bare_body_def)
  have v: "validate simple_schema (new_Task simple_schema 200 (next_id office) 1 bare_body)"
    by (simp add: simple_schema_def new_Task_def bare_body_def)
  show ?thesis
    using a v post_tasks_without_assignedTo [OF a, of simple_schema 200 1 office]
    by (simp add: office_def)
qed

lemma post_tasks_empty_list:
  assumes "b_assignedTo b = Some []" "validate sch (new_Task sch now (next_id s) caller b)"
  shows "\<exists>t. post_tasks sch now caller b s
           = (Reply 201 (Some t),
              s\<lparr>next_id := Suc (next_id s), tasks := tasks s @ [new_Task sch now (next_id s) caller b]\<rparr>)"
proof -
  let ?task = "new_Task sch now (next_id s) caller b"
  let ?s1 = "s\<lparr>next_id := Suc (next_id s), tasks := tasks s @ [?task]\<rparr>"
  obtain y where "Task_findById ?s1 (t_id ?task) = Some y"
    using find_append_last [of "\<lambda>t. t_id t = t_id ?task" ?task "tasks s"]
    by (auto simp: Task_findById_def)
  then show ?thesis
    using assms by (simp add: post_tasks_def Let_def insertMany_def)
qed

lemma findByIdAndUpdate_found:
  "Task_findById s i = Some T \<Longrightarrow> list_all castable as \<Longrightarrow>
   Task_findByIdAndUpdate pol i as s
     = Some (Some (set_all pol as T),
             s\<lparr>tasks := update_first (\<lambda>t. t_id t = i) (set_all pol as) (tasks s)\<rparr>)"
  by (simp add: Task_findByIdAndUpdate_def)

lemma findByIdAndUpdate_throws:
  "\<not> list_all castable as \<Longrightarrow> Task_findByIdAndUpdate pol i as s = None"
  by (simp add: Task_findByIdAndUpdate_def)

lemma findById_insertMany [simp]:
  "Task_findById (insertMany now ds s) i = Task_findById s i"
  by (simp add: Task_findById_def insertMany_def)

lemma insertMany_Nil [simp]: "insertMany now [] s = s"
  by (simp add: insertMany_def)

lemma count_by_field:
  "length (filter (\<lambda>x. f x = u) xs) = count_list (map f xs) u"
  by (induction xs) auto

lemma count_list_filter:
  "count_list (filter P xs) u = (if P u then count_list xs u else 0)"
  by (induction xs) auto

lemma count_list_distinct:
  "distinct xs \<Longrightarrow> count_list xs u = (if u \<in> set xs then 1 else 0)"
  by (induction xs) auto

lemma put_task_by_creator:
  assumes "Task_findById s i = Some T" "createdBy T = caller" "b_assignedTo b = Some us"
  shows "put_task pol now caller i b s =
     (let fresh = filter (\<lambda>u. u \<notin> set (assignedTo T)) us;
          s1 = insertMany now
                 (map (\<lambda>userId. \<lparr>d_type = task_assigned, d_taskId = t_id T,
                    d_message = update_message (b_title b), d_userId = userId\<rparr>) fresh) s;
          updates = [Title (b_title b), Description (b_description b), Status (b_status b),
                     Priority (b_priority b), DueDate (b_dueDate b), AssignedTo us]
      in if castable (DueDate (b_dueDate b))
         then (Reply 200 (Some (populate (s1\<lparr>tasks := update_first (\<lambda>t. t_id t = i) (set_all pol updates) (tasks s1)\<rparr>)
                                  (set_all pol updates T))),
               s1\<lparr>tasks := update_first (\<lambda>t. t_id t = i) (set_all pol updates) (tasks s1)\<rparr>)
         else (Failure 500 ''Server error'', s1))"
proof -
  let ?fresh = "filter (\<lambda>u. u \<notin> set (assignedTo T)) us"
  let ?docs = "map (\<lambda>userId. \<lparr>d_type = task_assigned, d_taskId = t_id T,
                  d_message = update_message (b_title b), d_userId = userId\<rparr>) ?fresh"
  let ?s1 = "insertMany now ?docs s"
  let ?updates = "[Title (b_title b), Description (b_description b), Status (b_status b),
                   Priority (b_priority b), DueDate (b_dueDate b), AssignedTo us]"
  have found: "Task_findById ?s1 i = Some T"
    using assms(1) by simp
  have upd: "Task_findByIdAndUpdate pol i ?updates x =
      (if castable (DueDate (b_dueDate b))
       then Some (Some (set_all pol ?updates T),
                  x\<lparr>tasks := update_first (\<lambda>t. t_id t = i) (set_all pol ?updates) (tasks x)\<rparr>)
       else None)"
    if "Task_findById x i = Some T" for x
    using that by (simp add: Task_findByIdAndUpdate_def)
  show ?thesis
  proof (cases "?fresh = []")
    case True
    show ?thesis
      using assms True upd [OF assms(1)] by (simp add: put_task_def Let_def)
  next
    case False
    show ?thesis
      using assms False upd [OF found] by (simp add: put_task_def Let_def)
  qed
qed

text \<open>
  C2, as amended. When the creator of a task sends \<open>PUT /tasks/:id\<close> with an \<open>assignedTo\<close>
  list, the notifications afterwards are those from before followed by one \<open>task_assigned\<close>
  notification per entry of the list that is not among the stored assignees, in the order
  of the list, and none for an id that is among them: an id gets as many notifications as
  the list names it, which is exactly one when the list names no id twice. The notifications
  are inserted whether the update that follows is stored (status 200) or refused because the
  due date is no date (status 500).
\<close>

theorem put_task_notifies_new_assignees:
  assumes "Task_findById s i = Some T" "createdBy T = caller" "b_assignedTo b = Some us"
  shows "\<exists>new. notifications (snd (put_task pol now caller i b s)) = notifications s @ new \<and>
           map userId new = filter (\<lambda>u. u \<notin> set (assignedTo T)) us \<and>
           (\<forall>n \<in> set new. n_type n = task_assigned \<and> taskId n = i \<and>
              message n = update_message (b_title b) \<and> \<not> read n) \<and>
           (\<forall>u. length (filter (\<lambda>n. userId n = u) new)
                  = (if u \<in> set (assignedTo T) then 0 else count_list us u)) \<and>
           (distinct us \<longrightarrow>
              (\<forall>u. length (filter (\<lambda>n. userId n = u) new)
                     = (if u \<in> set us \<and> u \<notin> set (assignedTo T) then 1 else 0))) \<and>
           (castable (DueDate (b_dueDate b)) \<longrightarrow>
              (\<exists>tv. fst (put_task pol now caller i b s) = Reply 200 (Some tv))) \<and>
           (\<not> castable (DueDate (b_dueDate b)) \<longrightarrow>
              fst (put_task pol now caller i b s) = Failure 500 ''Server error'')"
proof -
  let ?fresh = "filter (\<lambda>u. u \<notin> set (assignedTo T)) us"
  let ?docs = "map (\<lambda>userId. \<lparr>d_type = task_assigned, d_taskId = t_id T,
                  d_message = update_message (b_title b), d_userId = userId\<rparr>) ?fresh"
  let ?new = "map (\<lambda>(i, d). new_Notification now i d) (enumerate (next_id s) ?docs)"
  have id: "t_id T = i"
    using assms(1) by (auto simp: Task_findById_def find_Some_iff)
  have n: "notifications (snd (put_task pol now caller i b s)) = notifications s @ ?new"
    unfolding put_task_by_creator [OF assms] by (simp add: Let_def insertMany_def)
  have ok: "\<exists>tv. fst (put_task pol now caller i b s) = Reply 200 (Some tv)"
    if "castable (DueDate (b_dueDate b))"
    unfolding put_task_by_creator [OF assms] using that by (simp add: Let_def)
  have ko: "fst (put_task pol now caller i b s) = Failure 500 ''Server error''"
    if "\<not> castable (DueDate (b_dueDate b))"
    unfolding put_task_by_creator [OF assms] using that by (simp add: Let_def)
  have u: "map userId ?new = ?fresh"
    by (simp only: inserted_userIds) (simp add: o_def)
  have p: "\<forall>n \<in> set ?new. n_type n = task_assigned \<and> taskId n = i \<and>
              message n = update_message (b_title b) \<and> \<not> read n"
  proof
    fix n assume "n \<in> set ?new"
    from inserted_fields [OF this] show "n_type n = task_assigned \<and> taskId n = i \<and>
              message n = update_message (b_title b) \<and> \<not> read n"
      using id by auto
  qed
  have c: "length (filter (\<lambda>n. userId n = u) ?new)
      = (if u \<in> set (assignedTo T) then 0 else count_list us u)" for u
    unfolding count_by_field u by (simp add: count_list_filter)
  have d: "length (filter (\<lambda>n. userId n = u) ?new)
      = (if u \<in> set us \<and> u \<notin> set (assignedTo T) then 1 else 0)" if "distinct us" for u
    unfolding c using that by (simp add: count_list_distinct)
  show ?thesis
    using n u p c d ok ko by (intro exI [of _ ?new]) blast
qed

theorem put_task_notifies_new_assignees_witness:
  "Task_findById office 10 = Some report \<and> createdBy report = 1 \<and> assignedTo report = [2, 3] \<and>
   b_assignedTo widened_body = Some [2, 3, 4] \<and> distinct [2 :: nat, 3, 4] \<and>
   castable (DueDate (b_dueDate widened_body)) \<and>
   (\<exists>tv new. fst (put_task Omit 200 1 10 widened_body office) = Reply 200 (Some tv) \<and>
      notifications (snd (put_task Omit 200 1 10 widened_body office)) = [notice, notice'] @ new \<and>
      map userId new = [4] \<and> map taskId new = [10] \<and>
      map message new = [''You have been assigned to the task: Report v2''])"
proof -
  have a: "Task_findById office 10 = Some report"
    by (simp add: Task_findById_def office_def report_def)
  have b: "createdBy report = 1" and c: "assignedTo report = [2, 3]"
    by (simp_all add: report_def)
  have d: "b_assignedTo widened_body = Some [2, 3, 4]"
    and k: "castable (DueDate (b_dueDate widened_body))"
    by (simp_all add: widened_body_def)
  from put_task_notifies_new_assignees [OF a b d, of Omit 200]
  obtain new where r:
    "notifications (snd (put_task Omit 200 1 10 widened_body office)) = notifications office @ new"
    "map userId new = filter (\<lambda>u. u \<notin> set (assignedTo report)) [2, 3, 4]"
    "\<forall>n \<in> set new. n_type n = task_assigned \<and> taskId n = 10 \<and>
        message n = update_message (b_title widened_body) \<and> \<not> read n"
    "castable (DueDate (b_dueDate widened_body)) \<longrightarrow>
       (\<exists>tv. fst (put_task Omit 200 1 10 widened_body office) = Reply 200 (Some tv))"
    by auto
  obtain tv where t: "fst (put_task Omit 200 1 10 widened_body office) = Reply 200 (Some tv)"
    using r(4) k by blast
  have u: "map userId new = [4]"
    using r(2) by (simp add: c)
  then obtain n1 where new: "new = [n1]"
    by (cases new) auto
  have "map taskId new = [10]"
    and "map message new = [''You have been assigned to the task: Report v2'']"
    using r(3) by (simp_all add: new update_message_def widened_body_def template_value_def)
  then show ?thesis
    using a b c d k t r(1) u by (simp add: office_def)
qed

text \<open>
  C2, as the claim states it, fails: a list that names the new assignee 4 twice brings user
  4 two notifications, not exactly one.
\<close>

theorem put_task_listed_twice_counterexample:
  "Task_findById office 10 = Some report \<and> createdBy report = 1 \<and>
   b_assignedTo doubled_body = Some [4, 4] \<and> 4 \<notin> set (assignedTo report) \<and>
   map userId (notifications office) = [2, 3] \<and>
   map userId (notifications (snd (put_task Omit 200 1 10 doubled_body office))) = [2, 3, 4, 4]"
  by (simp add: put_task_def Task_findById_def office_def report_def notice_def notice'_def
      doubled_body_def Task_findByIdAndUpdate_def insertMany_def new_Notification_def Let_def)

text \<open>
  The same update with a due date that is no date: user 4 is notified, the answer is status
  500 and the task is as it was.
\<close>

lemma put_task_undated:
  "fst (put_task Omit 200 1 10 undated_body office) = Failure 500 ''Server error'' \<and>
   tasks (snd (put_task Omit 200 1 10 undated_body office)) = [report] \<and>
   map userId (notifications (snd (put_task Omit 200 1 10 undated_body office))) = [2, 3, 4]"
  by (simp add: put_task_def Task_findById_def office_def report_def notice_def notice'_def
      undated_body_def Task_findByIdAndUpdate_def insertMany_def new_Notification_def Let_def
      max_date_def)

lemma delete_first_distinct:
  "distinct (map f xs) \<Longrightarrow> x \<in> set (delete_first (\<lambda>x. f x = k) xs) \<Longrightarrow> f x \<noteq> k"
  by (induction xs) (auto split: if_splits simp: image_iff)

lemma set_delete_first: "set (delete_first P xs) \<subseteq> set xs"
  by (induction xs) auto

lemma set_newest_first [simp]: "set (newest_first f xs) = set xs"
  by (simp add: newest_first_def)

text \<open>
  C6. When the creator deletes a task, the task is gone from the task collection, the
  notifications left are exactly those of other tasks, and the notification list of any user
  holds none of the notifications that referred to the task.
\<close>

theorem delete_task_cascades:
  assumes "wf_store s" "Task_findById s i = Some T" "createdBy T = caller"
  shows "\<exists>s'. delete_task caller i s = (Reply 200 ''Task deleted'', s') \<and>
           Task_findById s' i = None \<and> T \<notin> set (tasks s') \<and>
           notifications s' = filter (\<lambda>n. taskId n \<noteq> i) (notifications s) \<and>
           (\<forall>u. \<exists>vs. get_notifications u s' = Reply 200 vs \<and>
                  (\<forall>n \<in> set (notifications s). taskId n = i \<longrightarrow> n_id n \<notin> nv_id ` set vs) \<and>
                  (\<forall>v \<in> set vs. \<forall>ttl. nv_taskId v \<noteq> Some (i, ttl)))"
proof -
  let ?s' = "s\<lparr>tasks := delete_first (\<lambda>t. t_id t = i) (tasks s),
               notifications := filter (\<lambda>n. taskId n \<noteq> i) (notifications s)\<rparr>"
  have id: "t_id T = i"
    using assms(2) by (auto simp: Task_findById_def find_Some_iff)
  have dt: "distinct (map t_id (tasks s))" and dn: "distinct (map n_id (notifications s))"
    using assms(1) by (simp_all add: wf_store_def)
  have del: "delete_task caller i s = (Reply 200 ''Task deleted'', ?s')"
    using assms(2,3) id by (simp add: delete_task_def)
  have gone: "\<forall>t \<in> set (tasks ?s'). t_id t \<noteq> i"
    using delete_first_distinct [OF dt] by auto
  have none: "Task_findById ?s' i = None"
    using gone by (auto simp: Task_findById_def find_None_iff)
  have notin: "T \<notin> set (tasks ?s')"
    using gone id by auto
  have listing: "\<exists>vs. get_notifications u ?s' = Reply 200 vs \<and>
                  (\<forall>n \<in> set (notifications s). taskId n = i \<longrightarrow> n_id n \<notin> nv_id ` set vs) \<and>
                  (\<forall>v \<in> set vs. \<forall>ttl. nv_taskId v \<noteq> Some (i, ttl))" for u
  proof -
    let ?vs = "newest_first nv_createdAt
       (map (populate_taskId ?s') (filter (\<lambda>n. userId n = u) (notifications ?s')))"
    have 1: "get_notifications u ?s' = Reply 200 ?vs"
      by (simp add: get_notifications_def)
    have 2: "n_id n \<notin> nv_id ` set ?vs" if "n \<in> set (notifications s)" "taskId n = i" for n
    proof
      assume "n_id n \<in> nv_id ` set ?vs"
      then obtain m where m: "m \<in> set (notifications s)" "taskId m \<noteq> i" "n_id m = n_id n"
        by (auto simp: populate_taskId_def)
      have "inj_on n_id (set (notifications s))"
        using dn by (simp add: distinct_map)
      then have "m = n"
        using m(1,3) that(1) by (auto dest: inj_onD)
      then show False
        using m(2) that(2) by simp
    qed
    have 3: "nv_taskId v \<noteq> Some (i, ttl)" if "v \<in> set ?vs" for v ttl
    proof -
      from that have "v \<in> populate_taskId ?s' ` set (filter (\<lambda>n. userId n = u) (notifications ?s'))"
        by simp
      then obtain n where n0: "n \<in> set (filter (\<lambda>n. userId n = u) (notifications ?s'))"
        and n1: "v = populate_taskId ?s' n"
        by blast
      from n0 have "taskId n \<noteq> i"
        by simp
      note n = this n1
      show ?thesis
      proof (cases "Task_findById ?s' (taskId n)")
        case None
        then show ?thesis by (simp add: n populate_taskId_def)
      next
        case (Some t)
        then have "t_id t = taskId n"
          by (auto simp: Task_findById_def find_Some_iff)
        then show ?thesis
          using Some n(1) by (simp add: n populate_taskId_def del: store.simps)
      qed
    qed
    show ?thesis
      using 1 2 3 by blast
  qed
  show ?thesis
    using del none notin listing by (intro exI [of _ ?s']) simp
qed

theorem delete_task_cascades_witness:
  "wf_store office \<and> Task_findById office 10 = Some report \<and> createdBy report = 1 \<and>
   map taskId (notifications office) = [10, 10] \<and>
   (\<exists>s'. delete_task 1 10 office = (Reply 200 ''Task deleted'', s') \<and> tasks s' = [] \<and>
      notifications s' = [] \<and> get_notifications 2 s' = Reply 200 [] \<and>
      get_notifications 3 s' = Reply 200 [])"
proof -
  have w: "wf_store office"
    by (simp add: wf_store_def office_def report_def notice_def notice'_def)
  have a: "Task_findById office 10 = Some report"
    by (simp add: Task_findById_def office_def report_def)
  have b: "createdBy report = 1"
    by (simp add: report_def)
  have n: "map taskId (notifications office) = [10, 10]"
    by (simp add: office_def notice_def notice'_def)
  from delete_task_cascades [OF w a b] obtain s' where
    r: "delete_task 1 10 office = (Reply 200 ''Task deleted'', s')"
       "notifications s' = filter (\<lambda>n. taskId n \<noteq> 10) (notifications office)"
       "Task_findById s' 10 = None"
    by blast
  have e: "notifications s' = []"
    using r(2) by (simp add: office_def notice_def notice'_def)
  have t: "tasks s' = []"
    using r(1) a by (auto simp: delete_task_def office_def report_def split: if_splits)
  have "get_notifications 2 s' = Reply 200 []" "get_notifications 3 s' = Reply 200 []"
    using e by (simp_all add: get_notifications_def newest_first_def)
  then show ?thesis
    using w a b n r(1) e t by simp
qed

section \<open>The read flag over sequences of requests\<close>

lemma evolves_refl: "evolves s s"
  by (auto simp: evolves_def)

lemma evolves_trans: "evolves s s' \<Longrightarrow> evolves s' s'' \<Longrightarrow> evolves s s''"
  unfolding evolves_def by (fastforce)

lemma evolves_same:
  "notifications s' = notifications s \<Longrightarrow> next_id s \<le> next_id s' \<Longrightarrow> evolves s s'"
  by (auto simp: evolves_def)

lemma in_update_first:
  "y \<in> set (update_first P f xs) \<Longrightarrow> y \<in> set xs \<or> (\<exists>x \<in> set xs. y = f x)"
  by (induction xs) (auto split: if_splits)

lemma map_update_first:
  "(\<And>x. g (f x) = g x) \<Longrightarrow> map g (update_first P f xs) = map g xs"
  by (induction xs) auto

lemma map_delete_first_distinct:
  "distinct (map g xs) \<Longrightarrow> distinct (map g (delete_first P xs))"
  using set_delete_first [of P] by (induction xs) (auto simp: image_iff)

lemma t_id_apply_assignment [simp]: "t_id (apply_assignment pol a t) = t_id t"
  by (cases a) simp_all

lemma t_id_set_all [simp]: "t_id (set_all pol as t) = t_id t"
  unfolding set_all_def by (induction as arbitrary: t) simp_all

lemma findByIdAndUpdate_frame:
  assumes "Task_findByIdAndUpdate pol i as s = Some (d, s')"
  shows "notifications s' = notifications s" "next_id s' = next_id s" "users s' = users s"
    "map t_id (tasks s') = map t_id (tasks s)"
  using assms
  by (auto simp: Task_findByIdAndUpdate_def map_update_first split: option.splits if_splits)

lemma evolves_insertMany: "evolves s (insertMany now ds s)"
proof -
  have "next_id s \<le> n_id n"
    if "n \<in> set (map (\<lambda>(i, d). new_Notification now i d) (enumerate (next_id s) ds))" for n
    using inserted_fields [OF that] by auto
  then show ?thesis
    by (auto simp: evolves_def insertMany_def)
qed

lemma put_task_frame:
  "\<exists>ds. notifications (snd (put_task pol now caller i b s)) = notifications (insertMany now ds s) \<and>
         next_id (snd (put_task pol now caller i b s)) = next_id (insertMany now ds s) \<and>
         map t_id (tasks (snd (put_task pol now caller i b s))) = map t_id (tasks s)"
proof -
  have after: "\<exists>ds. notifications (snd (case Task_findByIdAndUpdate pol i as s1 of
                 None \<Rightarrow> (Failure 500 ''Server error'', s1)
               | Some (updatedTask, s2) \<Rightarrow> (Reply 200 (map_option (populate s2) updatedTask), s2)))
             = notifications (insertMany now ds s) \<and>
           next_id (snd (case Task_findByIdAndUpdate pol i as s1 of
                 None \<Rightarrow> (Failure 500 ''Server error'', s1)
               | Some (updatedTask, s2) \<Rightarrow> (Reply 200 (map_option (populate s2) updatedTask), s2)))
             = next_id (insertMany now ds s) \<and>
           map t_id (tasks (snd (case Task_findByIdAndUpdate pol i as s1 of
                 None \<Rightarrow> (Failure 500 ''Server error'', s1)
               | Some (updatedTask, s2) \<Rightarrow> (Reply 200 (map_option (populate s2) updatedTask), s2))))
             = map t_id (tasks s)"
    if "s1 = insertMany now ds0 s" for s1 as ds0
  proof (cases "Task_findByIdAndUpdate pol i as s1")
    case None
    then show ?thesis
      using that by (intro exI [of _ ds0]) (simp add: insertMany_def)
  next
    case (Some r)
    obtain d s2 where r: "r = (d, s2)"
      by (cases r) auto
    from findByIdAndUpdate_frame [OF Some [unfolded r]] show ?thesis
      using that Some r by (intro exI [of _ ds0]) (simp add: insertMany_def)
  qed
  have keep: "s = insertMany now [] s"
    by simp
  show ?thesis
  proof (cases "Task_findById s i")
    case None
    then show ?thesis
      by (intro exI [of _ "[]"]) (simp add: put_task_def)
  next
    case (Some task)
    show ?thesis
    proof (cases "createdBy task \<noteq> caller")
      case True
      then show ?thesis
        using Some by (intro exI [of _ "[]"]) (simp add: put_task_def)
    next
      case False
      show ?thesis
      proof (cases "b_assignedTo b")
        case None
        show ?thesis
          using Some False None after [OF keep] by (simp add: put_task_def Let_def)
      next
        case (Some us)
        show ?thesis
        proof (cases "filter (\<lambda>userId. userId \<notin> set (assignedTo task)) us = []")
          case True
          show ?thesis
            using \<open>Task_findById s i = Some task\<close> False Some True after [OF keep]
            by (simp add: put_task_def Let_def)
        next
          case nonempty: False
          show ?thesis
            using \<open>Task_findById s i = Some task\<close> False Some nonempty after [OF refl]
            by (simp add: put_task_def Let_def)
        qed
      qed
    qed
  qed
qed

lemma evolves_patch_notification_read: "evolves s (snd (patch_notification_read caller i s))"
proof -
  have "evolves s (s\<lparr>notifications := update_first P (\<lambda>n. n\<lparr>read := True\<rparr>) (notifications s)\<rparr>)" for P
    unfolding evolves_def by (auto dest!: in_update_first)
  then show ?thesis
    by (auto simp: patch_notification_read_def evolves_refl split: option.splits)
qed

lemma evolves_post_mark_all_read: "evolves s (snd (post_mark_all_read caller s))"
  unfolding evolves_def post_mark_all_read_def by auto

lemma evolves_post_tasks: "evolves s (snd (post_tasks sch now caller b s))"
proof -
  let ?s0 = "s\<lparr>next_id := Suc (next_id s)\<rparr>"
  have 0: "evolves s ?s0"
    by (simp add: evolves_same)
  have 1: "evolves s (?s0\<lparr>tasks := ts\<rparr>)" for ts
    by (simp add: evolves_same)
  have 2: "evolves s (insertMany now ds (?s0\<lparr>tasks := ts\<rparr>))" for ds ts
    using evolves_trans [OF 1 evolves_insertMany] .
  show ?thesis
    using 0 1 2 by (simp add: post_tasks_def Let_def split: option.splits)
qed

lemma evolves_put_task: "evolves s (snd (put_task pol now caller i b s))"
proof -
  obtain ds where
    "notifications (snd (put_task pol now caller i b s)) = notifications (insertMany now ds s)"
    "next_id (snd (put_task pol now caller i b s)) = next_id (insertMany now ds s)"
    using put_task_frame by blast
  then show ?thesis
    using evolves_insertMany [of s now ds] by (simp add: evolves_def)
qed

lemma patch_task_status_frame:
  "notifications (snd (patch_task_status pol caller i st s)) = notifications s \<and>
   next_id (snd (patch_task_status pol caller i st s)) = next_id s \<and>
   map t_id (tasks (snd (patch_task_status pol caller i st s))) = map t_id (tasks s)"
  by (auto simp: patch_task_status_def dest: findByIdAndUpdate_frame split: option.splits)

lemma evolves_patch_task_status: "evolves s (snd (patch_task_status pol caller i st s))"
  using patch_task_status_frame [of pol caller i st s] by (simp add: evolves_same)

lemma evolves_delete_task: "evolves s (snd (delete_task caller i s))"
  by (auto simp: delete_task_def evolves_def split: option.splits)

lemma evolves_handle: "evolves s (handle sch pol r s)"
proof -
  obtain now caller req where r: "r = (now, caller, req)"
    by (cases r) auto
  show ?thesis
    unfolding r
    by (cases req)
      (simp_all add: evolves_refl evolves_patch_notification_read evolves_post_mark_all_read
        evolves_post_tasks evolves_put_task evolves_patch_task_status evolves_delete_task)
qed

lemma evolves_run: "evolves s (run sch pol rs s)"
  unfolding run_def
proof (induction rs arbitrary: s)
  case Nil
  then show ?case by (simp add: evolves_refl)
next
  case (Cons r rs)
  show ?case
    using evolves_trans [OF evolves_handle Cons.IH] by simp
qed

lemma wf_store_ids:
  "wf_store x =
     (distinct (map t_id (tasks x)) \<and> distinct (map n_id (notifications x)) \<and>
      (\<forall>k \<in> set (map t_id (tasks x)). k < next_id x) \<and>
      (\<forall>k \<in> set (map n_id (notifications x)). k < next_id x))"
  by (auto simp: wf_store_def)

lemma wf_store_cong:
  assumes "wf_store s" "map t_id (tasks s') = map t_id (tasks s)"
    "map n_id (notifications s') = map n_id (notifications s)" "next_id s \<le> next_id s'"
  shows "wf_store s'"
  using assms(1,4) unfolding wf_store_ids assms(2,3) by fastforce

lemma wf_insertMany:
  assumes "wf_store s"
  shows "wf_store (insertMany now ds s)"
proof -
  have ids: "map n_id (notifications (insertMany now ds s))
      = map n_id (notifications s) @ [next_id s..<next_id s + length ds]"
    using inserted_ids [of now "next_id s" ds] by (simp add: insertMany_def)
  have ts: "tasks (insertMany now ds s) = tasks s"
    and nx: "next_id (insertMany now ds s) = next_id s + length ds"
    by (simp_all add: insertMany_def)
  show ?thesis
    using assms unfolding wf_store_ids ids ts nx by fastforce
qed

lemma wf_patch_notification_read: "wf_store s \<Longrightarrow> wf_store (snd (patch_notification_read caller i s))"
  by (auto simp: patch_notification_read_def map_update_first split: option.splits
      intro: wf_store_cong)

lemma wf_post_mark_all_read: "wf_store s \<Longrightarrow> wf_store (snd (post_mark_all_read caller s))"
proof -
  assume w: "wf_store s"
  have "map n_id (map (\<lambda>n. if userId n = caller \<and> read n = False then n\<lparr>read := True\<rparr> else n)
          (notifications s)) = map n_id (notifications s)"
    by (induction "notifications s") auto
  then show ?thesis
    using w by (auto simp: post_mark_all_read_def intro: wf_store_cong)
qed

lemma wf_post_tasks:
  assumes "wf_store s"
  shows "wf_store (snd (post_tasks sch now caller b s))"
proof -
  let ?task = "new_Task sch now (next_id s) caller b"
  let ?s0 = "s\<lparr>next_id := Suc (next_id s)\<rparr>"
  let ?s1 = "?s0\<lparr>tasks := tasks ?s0 @ [?task]\<rparr>"
  have 0: "wf_store ?s0"
    using assms by (rule wf_store_cong) simp_all
  have "t_id ?task = next_id s"
    by (simp add: new_Task_def)
  then have 1: "wf_store ?s1"
    using assms unfolding wf_store_ids by fastforce
  have 2: "wf_store (insertMany now ds ?s1)" for ds
    using 1 by (rule wf_insertMany)
  show ?thesis
    using 0 1 2 by (simp add: post_tasks_def Let_def split: option.splits)
qed

lemma wf_put_task:
  assumes "wf_store s"
  shows "wf_store (snd (put_task pol now caller i b s))"
proof -
  obtain ds where
    n: "notifications (snd (put_task pol now caller i b s)) = notifications (insertMany now ds s)"
    and x: "next_id (snd (put_task pol now caller i b s)) = next_id (insertMany now ds s)"
    and t: "map t_id (tasks (snd (put_task pol now caller i b s))) = map t_id (tasks s)"
    using put_task_frame by blast
  have ti: "tasks (insertMany now ds s) = tasks s"
    by (simp add: insertMany_def)
  have "wf_store (insertMany now ds s)"
    using assms by (rule wf_insertMany)
  then show ?thesis
    unfolding wf_store_ids n x t ti .
qed

lemma wf_patch_task_status:
  "wf_store s \<Longrightarrow> wf_store (snd (patch_task_status pol caller i st s))"
  using patch_task_status_frame [of pol caller i st s] by (auto intro: wf_store_cong)

lemma wf_delete_task:
  assumes "wf_store s"
  shows "wf_store (snd (delete_task caller i s))"
proof -
  have "wf_store (s\<lparr>tasks := delete_first P (tasks s), notifications := filter Q (notifications s)\<rparr>)"
    for P Q
    using assms set_delete_first [of P "tasks s"]
    by (auto simp: wf_store_def map_delete_first_distinct distinct_map_filter)
  then show ?thesis
    using assms by (simp add: delete_task_def split: option.splits)
qed

lemma wf_handle: "wf_store s \<Longrightarrow> wf_store (handle sch pol r s)"
proof -
  assume w: "wf_store s"
  obtain now caller req where r: "r = (now, caller, req)"
    by (cases r) auto
  show ?thesis
    unfolding r using w
    by (cases req)
      (simp_all add: wf_patch_notification_read wf_post_mark_all_read wf_post_tasks wf_put_task
        wf_patch_task_status wf_delete_task)
qed

lemma wf_run: "wf_store s \<Longrightarrow> wf_store (run sch pol rs s)"
  unfolding run_def by (induction rs arbitrary: s) (simp_all add: wf_handle)


text \<open>
  C7. From a store with unique ids, after any sequence of requests, by any callers at any
  times, the ids are still unique and every notification that was read before is read
  wherever it still exists: no exposed operation turns \<open>read\<close> from true to false.
\<close>

theorem read_never_reverts:
  assumes "wf_store s"
  shows "wf_store (run sch pol rs s) \<and>
         (\<forall>n \<in> set (notifications s). read n \<longrightarrow>
            (\<forall>n' \<in> set (notifications (run sch pol rs s)). n_id n' = n_id n \<longrightarrow> read n'))"
proof -
  have "read n'"
    if old: "n \<in> set (notifications s)" "read n"
      and new: "n' \<in> set (notifications (run sch pol rs s))" "n_id n' = n_id n" for n n'
  proof -
    have "n_id n' < next_id s"
      using assms old(1) new(2) by (simp add: wf_store_def)
    moreover have "next_id s \<le> n_id n' \<or>
        (\<exists>m \<in> set (notifications s). n_id m = n_id n' \<and> (read m \<longrightarrow> read n'))"
      using evolves_run [of s sch pol rs] new(1) by (simp add: evolves_def)
    ultimately obtain m where m: "m \<in> set (notifications s)" "n_id m = n_id n'"
      "read m \<longrightarrow> read n'"
      by auto
    have "inj_on n_id (set (notifications s))"
      using assms by (simp add: wf_store_def distinct_map)
    then have "m = n"
      using m(1,2) old(1) new(2) by (auto dest: inj_onD)
    then show ?thesis
      using m(3) old(2) by simp
  qed
  then show ?thesis
    using wf_run [OF assms] by blast
qed

theorem read_never_reverts_witness:
  "wf_store office \<and> map read (notifications office) = [False, True] \<and>
   wf_store (run simple_schema Omit trace office) \<and>
   map (\<lambda>n. (n_id n, read n)) (notifications (run simple_schema Omit trace office))
     = [(11, True), (12, True), (13, False), (15, False), (16, False)]"
proof -
  have w: "wf_store office"
    by (simp add: wf_store_def office_def report_def notice_def notice'_def)
  have r: "map read (notifications office) = [False, True]"
    by (simp add: office_def notice_def notice'_def)
  have e: "map (\<lambda>n. (n_id n, read n)) (notifications (run simple_schema Omit trace office))
     = [(11, True), (12, True), (13, False), (15, False), (16, False)]"
    by (simp add: run_def trace_def office_def report_def notice_def notice'_def
        patch_notification_read_def Notification_findById_def put_task_def Task_findById_def
        widened_body_def Task_findByIdAndUpdate_def insertMany_def new_Notification_def max_date_def
        post_mark_all_read_def post_tasks_def request_body_def simple_schema_def new_Task_def
        Let_def or_default_def set_all_def)
  have "wf_store (run simple_schema Omit trace office)"
    using read_never_reverts [OF w, of simple_schema Omit trace] by (rule conjunct1)
  then show ?thesis
    using w r e by (intro conjI)
qed

section \<open>The update and the fields that were not supplied\<close>

text \<open>
  \<open>PUT /tasks/:id\<close> always puts the five keys \<open>title\<close>, \<open>description\<close>, \<open>status\<close>,
  \<open>priority\<close> and \<open>dueDate\<close> into the object for \<open>$set\<close>, with \<open>undefined\<close> for those the
  caller did not supply, and the key \<open>assignedTo\<close> only when it was supplied. When the
  update is not refused, the stored task is the old one with these assignments applied.
\<close>

lemma put_task_stored:
  assumes "Task_findById s i = Some T" "createdBy T = caller" "castable (DueDate (b_dueDate b))"
  shows "Task_findById (snd (put_task pol now caller i b s)) i
         = Some (set_all pol
             ([Title (b_title b), Description (b_description b), Status (b_status b),
               Priority (b_priority b), DueDate (b_dueDate b)] @
              (case b_assignedTo b of None \<Rightarrow> [] | Some us \<Rightarrow> [AssignedTo us])) T)"
proof -
  have id: "t_id T = i"
    using assms(1) by (auto simp: Task_findById_def find_Some_iff)
  have stored: "Task_findById (x\<lparr>tasks := update_first (\<lambda>t. t_id t = i) (set_all pol as) (tasks x)\<rparr>) i
      = Some (set_all pol as T)"
    if "Task_findById x i = Some T" for x as
  proof -
    have "find (\<lambda>t. t_id t = i) (tasks x) = Some T"
      using that by (simp add: Task_findById_def)
    then have "find (\<lambda>t. t_id t = i) (update_first (\<lambda>t. t_id t = i) (set_all pol as) (tasks x))
        = Some (set_all pol as T)"
      using id by (intro find_update_first) simp_all
    then show ?thesis
      by (simp add: Task_findById_def)
  qed
  show ?thesis
  proof (cases "b_assignedTo b")
    case None
    let ?updates = "[Title (b_title b), Description (b_description b), Status (b_status b),
                     Priority (b_priority b), DueDate (b_dueDate b)]"
    have "list_all castable ?updates"
      using assms(3) by simp
    from findByIdAndUpdate_found [OF assms(1) this, of pol] show ?thesis
      using assms None stored [OF assms(1)] by (simp add: put_task_def Let_def)
  next
    case (Some us)
    have "Task_findById (insertMany now ds s) i = Some T" for ds
      using assms(1) by simp
    from stored [OF this] show ?thesis
      unfolding put_task_by_creator [OF assms(1,2) Some] using assms(3) Some
      by (simp add: Let_def)
  qed
qed

text \<open>
  Where keys with the value \<open>undefined\<close> are dropped from the update, a field that was not
  supplied keeps its value.
\<close>

lemma put_task_omit_keeps_unsupplied:
  assumes "Task_findById s i = Some T" "createdBy T = caller" "castable (DueDate (b_dueDate b))"
  shows "\<exists>T'. Task_findById (snd (put_task Omit now caller i b s)) i = Some T' \<and>
           title T' = or_default (b_title b) (title T) \<and>
           description T' = or_default (b_description b) (description T) \<and>
           status T' = or_default (b_status b) (status T) \<and>
           priority T' = or_default (b_priority b) (priority T) \<and>
           dueDate T' = or_default (b_dueDate b) (dueDate T) \<and>
           assignedTo T' = (case b_assignedTo b of None \<Rightarrow> assignedTo T | Some us \<Rightarrow> us) \<and>
           t_id T' = t_id T \<and> createdBy T' = createdBy T \<and> createdAt T' = createdAt T"
proof -
  have f: "set_field Omit v old = or_default v old" for v old :: "'a option"
    by (cases v) (simp_all add: or_default_def)
  show ?thesis
    unfolding put_task_stored [OF assms]
    by (cases "b_assignedTo b") (simp_all add: set_all_def f)
qed

text \<open>
  Where they are written as \<open>null\<close>, each of the five fields that was not supplied loses its
  value; \<open>assignedTo\<close>, the creator and the dates are kept in either case.
\<close>

lemma put_task_null_clears_unsupplied:
  assumes "Task_findById s i = Some T" "createdBy T = caller" "castable (DueDate (b_dueDate b))"
  shows "\<exists>T'. Task_findById (snd (put_task Null now caller i b s)) i = Some T' \<and>
           title T' = b_title b \<and> description T' = b_description b \<and> status T' = b_status b \<and>
           priority T' = b_priority b \<and> dueDate T' = b_dueDate b \<and>
           assignedTo T' = (case b_assignedTo b of None \<Rightarrow> assignedTo T | Some us \<Rightarrow> us) \<and>
           t_id T' = t_id T \<and> createdBy T' = createdBy T \<and> createdAt T' = createdAt T"
proof -
  have f: "set_field Null v old = v" for v old :: "'a option"
    by (cases v) simp_all
  show ?thesis
    unfolding put_task_stored [OF assms]
    by (cases "b_assignedTo b") (simp_all add: set_all_def f)
qed

end
